theory Spec2Isabelle
  imports Complex_Main "HOL-Library.Word"
begin

unbundle bit_operations_syntax

section \<open>JavaScript strings\<close>

text \<open>
  A JavaScript string is a sequence of UTF-16 code units; \<open>length\<close> counts code units and
  \<open>charCodeAt\<close> reads one as a number in \<open>0..65535\<close>.
\<close>

type_synonym jschar = "16 word"
type_synonym jsstring = "jschar list"

definition lit :: "string \<Rightarrow> jsstring" where
  "lit s = map (\<lambda>c. word_of_nat (of_char c)) s"

definition charCodeAt :: "jschar \<Rightarrow> int" where
  "charCodeAt c = uint c"

text \<open>
  \<open>String.prototype.slice(start, end)\<close>: a negative index counts from the end, both are
  clamped to the string, and an empty range gives the empty string.
\<close>

definition js_slice :: "'a list \<Rightarrow> int \<Rightarrow> int \<Rightarrow> 'a list" where
  "js_slice xs start end' =
     (let len = int (length xs);
          from = (if start < 0 then max (len + start) 0 else min start len);
          to = (if end' < 0 then max (len + end') 0 else min end' len)
      in take (nat (to - from)) (drop (nat from) xs))"

section \<open>rag.ts: chunkText\<close>

text \<open>
  The \<open>while\<close> loop of \<open>chunkText\<close>, with the loop variable \<open>start\<close> and the array
  \<open>chunks\<close> as arguments. The loop may run forever, so the result is an option:
  \<open>None\<close> is "does not return".
\<close>

partial_function (option) chunkText_loop ::
  "jsstring \<Rightarrow> int \<Rightarrow> int \<Rightarrow> int \<Rightarrow> jsstring list \<Rightarrow> jsstring list option" where
  "chunkText_loop text chunkSize overlap start chunks =
     (if start < int (length text) then
        (let end' = min (start + chunkSize) (int (length text));
             chunks' = chunks @ [js_slice text start end']
         in if end' = int (length text) then Some chunks'
            else chunkText_loop text chunkSize overlap (end' - overlap) chunks')
      else Some chunks)"

declare chunkText_loop.simps [code]

definition chunkText :: "jsstring \<Rightarrow> int \<Rightarrow> int \<Rightarrow> jsstring list option" where
  "chunkText text chunkSize overlap = chunkText_loop text chunkSize overlap 0 []"

section \<open>rag.ts: the rolling hash of generateSimpleEmbedding\<close>

text \<open>
  \<open>hash\<close> is a JavaScript number holding an integer. \<open><<\<close> and \<open>&\<close> convert their
  operands with ToInt32 (the value modulo \<open>2^32\<close>, read as two's complement) and give a
  signed 32-bit result; \<open>-\<close> and \<open>+\<close> are exact on doubles of this size
  (all intermediate values are below \<open>2^53\<close>).
\<close>

definition ToInt32 :: "int \<Rightarrow> 32 word" where
  "ToInt32 x = word_of_int x"

definition hash_step :: "int \<Rightarrow> jschar \<Rightarrow> int" where
  "hash_step hash c =
     sint (ToInt32 (sint (push_bit 5 (ToInt32 hash)) - hash + charCodeAt c)
           AND ToInt32 4294967295)"

definition word_hash :: "jsstring \<Rightarrow> int" where
  "word_hash word = foldl hash_step 0 word"

text \<open>\<open>Math.abs(hash) % embedding.length\<close>, with \<open>embedding.length = 100\<close>.\<close>

definition bucket_index :: "jsstring \<Rightarrow> nat" where
  "bucket_index word = nat (\<bar>word_hash word\<bar> mod 100)"

subsection \<open>The reference algorithm of the specification\<close>

text \<open>
  The specification's words: \<open>hash = (hash*31 + charCode) mod 2^32\<close> with signed 32-bit
  wrap-around, then \<open>abs(hash) mod dimensionality\<close>.
\<close>

definition wrap_signed32 :: "int \<Rightarrow> int" where
  "wrap_signed32 x = (x + 2 ^ 31) mod 2 ^ 32 - 2 ^ 31"

definition spec_hash_step :: "int \<Rightarrow> jschar \<Rightarrow> int" where
  "spec_hash_step hash c = wrap_signed32 (hash * 31 + charCodeAt c)"

definition spec_hash :: "jsstring \<Rightarrow> int" where
  "spec_hash word = foldl spec_hash_step 0 word"

definition spec_bucket_index :: "jsstring \<Rightarrow> nat" where
  "spec_bucket_index word = nat (\<bar>spec_hash word\<bar> mod 100)"

section \<open>rag.ts: text processing\<close>

text \<open>
  The code units that \<open>\s\<close> in a regular expression and \<open>String.prototype.trim\<close>
  treat as white space: tab, line feed, vertical tab, form feed, carriage return, space,
  no-break space, U+1680, U+2000 to U+200A, U+2028, U+2029, U+202F, U+205F, U+3000, U+FEFF.
\<close>

definition is_whitespace :: "jschar \<Rightarrow> bool" where
  "is_whitespace c \<longleftrightarrow>
     c \<in> set [9, 10, 11, 12, 13, 32, 160, 5760, 8232, 8233, 8239, 8287, 12288, 65279]
     \<or> (8192 \<le> c \<and> c \<le> 8202)"


text \<open>
  \<open>toLowerCase\<close> on the letters \<open>A\<close> to \<open>Z\<close>. The case tables of the platform for
  code units outside ASCII are not part of the repository; such code units are left as they
  are, and no result below depends on how they are mapped.
\<close>

definition toLowerCase :: "jsstring \<Rightarrow> jsstring" where
  "toLowerCase s = map (\<lambda>c. if 65 \<le> c \<and> c \<le> 90 then c + 32 else c) s"

text \<open>
  \<open>s.split(/\s+/)\<close>: the pieces between maximal runs of white space. A run at the start
  or at the end of the string leaves an empty piece there, and the empty string gives one
  empty piece. \<open>split_from word rest\<close> scans \<open>rest\<close> with the piece read so far in
  \<open>word\<close>.
\<close>

function split_from :: "jsstring \<Rightarrow> jsstring \<Rightarrow> jsstring list" where
  "split_from word [] = [word]"
| "split_from word (c # cs) =
     (if is_whitespace c then word # split_from [] (dropWhile is_whitespace cs)
      else split_from (word @ [c]) cs)"
  by pat_completeness auto
termination
  by (relation "measure (\<lambda>(word, s). length s)") (auto simp: less_Suc_eq_le length_dropWhile_le)

definition split_whitespace :: "jsstring \<Rightarrow> jsstring list" where
  "split_whitespace s = split_from [] s"

text \<open>A non-negative integer in a template literal: its decimal digits.\<close>

fun decimal :: "nat \<Rightarrow> jsstring" where
  "decimal n =
     (if n < 10 then [word_of_nat (48 + n)]
      else decimal (n div 10) @ [word_of_nat (48 + n mod 10)])"

declare decimal.simps [simp del]

definition newline :: jschar where
  "newline = 10"

text \<open>\<open>Array.prototype.join\<close> on an array of strings.\<close>

fun join :: "jsstring \<Rightarrow> jsstring list \<Rightarrow> jsstring" where
  "join sep [] = []"
| "join sep [x] = x"
| "join sep (x # y # ys) = x @ sep @ join sep (y # ys)"

section \<open>rag.ts: similarity\<close>


text \<open>The first loop of \<open>generateSimpleEmbedding\<close>: one increment per word.\<close>

definition count_words :: "jsstring list \<Rightarrow> real list \<Rightarrow> real list" where
  "count_words words embedding =
     foldl (\<lambda>emb word.
              let index = nat (\<bar>word_hash word\<bar> mod int (length emb))
              in emb[index := emb ! index + 1])
       embedding words"

definition generateSimpleEmbedding :: "jsstring \<Rightarrow> real list" where
  "generateSimpleEmbedding text =
     (let words = split_whitespace (toLowerCase text);
          embedding = count_words words (replicate 100 0);
          magnitude = sqrt (foldl (\<lambda>sum val. sum + val * val) 0 embedding)
      in if magnitude > 0 then map (\<lambda>val. val / magnitude) embedding else embedding)"

definition cosineSimilarity :: "real list \<Rightarrow> real list \<Rightarrow> real" where
  "cosineSimilarity a b =
     (if length a \<noteq> length b then 0
      else
        let (dotProduct, normA, normB) =
              foldl (\<lambda>(dotProduct, normA, normB) i.
                       (dotProduct + a ! i * b ! i, normA + a ! i * a ! i, normB + b ! i * b ! i))
                (0, 0, 0) [0..<length a]
        in if normA * normB > 0 then dotProduct / (sqrt normA * sqrt normB) else 0)"

text \<open>The Euclidean norm, for stating what normalisation achieves.\<close>

definition euclidean_norm :: "real list \<Rightarrow> real" where
  "euclidean_norm v = sqrt (sum_list (map (\<lambda>x. x * x) v))"


section \<open>rag.ts: the document store\<close>

record Metadata =
  source :: "jsstring option"
  type_md :: "jsstring option"
  timestamp :: "int option"
  size_md :: "int option"

record Document =
  id_doc :: jsstring
  title :: jsstring
  content :: jsstring
  embedding :: "real list option"
  metadata :: "Metadata option"

record RAGConfig =
  maxDocuments :: int
  chunkSize :: int
  chunkOverlap :: int
  similarityThreshold :: real
  maxRetrievedDocs :: int

definition DEFAULT_RAG_CONFIG :: RAGConfig where
  "DEFAULT_RAG_CONFIG =
     \<lparr>maxDocuments = 1000, chunkSize = 1000, chunkOverlap = 200,
      similarityThreshold = 0.5, maxRetrievedDocs = 5\<rparr>"

text \<open>
  A JavaScript \<open>Map\<close> keeps its entries in insertion order: it is a list of entries with
  distinct keys. \<open>set\<close> replaces the value of a key that is present, in place, and appends
  an entry otherwise; \<open>delete\<close> removes the entry of a key.
\<close>

fun Map_set :: "'k \<Rightarrow> 'v \<Rightarrow> ('k \<times> 'v) list \<Rightarrow> ('k \<times> 'v) list" where
  "Map_set k v [] = [(k, v)]"
| "Map_set k v (e # es) = (if fst e = k then (k, v) # es else e # Map_set k v es)"

definition Map_has :: "'k \<Rightarrow> ('k \<times> 'v) list \<Rightarrow> bool" where
  "Map_has k es \<longleftrightarrow> k \<in> set (map fst es)"

definition Map_delete :: "'k \<Rightarrow> ('k \<times> 'v) list \<Rightarrow> ('k \<times> 'v) list" where
  "Map_delete k es = filter (\<lambda>e. fst e \<noteq> k) es"

record RAGStore =
  documents :: "(jsstring \<times> Document) list"
  config :: RAGConfig

definition RAGStore_new :: "RAGConfig \<Rightarrow> RAGStore" where
  "RAGStore_new cfg = \<lparr>documents = [], config = cfg\<rparr>"

text \<open>The argument of \<open>addDocument\<close>: a document without \<open>id\<close> and \<open>embedding\<close>.\<close>

record NewDocument =
  new_title :: jsstring
  new_content :: jsstring
  new_metadata :: "Metadata option"

text \<open>
  What one call of \<open>addDocument\<close> reads from its environment: \<open>Date.now()\<close> for the id,
  the nine characters taken from \<open>Math.random()\<close>, and \<open>Date.now()\<close> for the timestamp.
\<close>

record AddEnv =
  now_id :: nat
  random_suffix :: jsstring
  now_timestamp :: nat

definition generate_id :: "AddEnv \<Rightarrow> jsstring" where
  "generate_id env = lit ''doc_'' @ decimal (now_id env) @ lit ''_'' @ random_suffix env"

text \<open>\<open>...doc.metadata\<close>: spreading \<open>undefined\<close> contributes no key.\<close>

definition spread_metadata :: "Metadata option \<Rightarrow> Metadata" where
  "spread_metadata m =
     (case m of
        None \<Rightarrow> \<lparr>source = None, type_md = None, timestamp = None, size_md = None\<rparr>
      | Some md \<Rightarrow> md)"

definition new_document :: "NewDocument \<Rightarrow> AddEnv \<Rightarrow> Document" where
  "new_document doc env =
     \<lparr>id_doc = generate_id env, title = new_title doc, content = new_content doc,
      embedding = Some (generateSimpleEmbedding (new_content doc)),
      metadata = Some ((spread_metadata (new_metadata doc))
         \<lparr>timestamp := Some (int (now_timestamp env)),
          size_md := Some (int (length (new_content doc)))\<rparr>)\<rparr>"

text \<open>The sort key of the eviction: \<open>a[1].metadata?.timestamp || 0\<close>.\<close>

definition entry_timestamp :: "jsstring \<times> Document \<Rightarrow> int" where
  "entry_timestamp e =
     (case metadata (snd e) of
        None \<Rightarrow> 0
      | Some m \<Rightarrow> (case timestamp m of None \<Rightarrow> 0 | Some t \<Rightarrow> t))"

text \<open>
  \<open>Array.prototype.sort\<close> is stable, and so is \<open>sort_key\<close>. The array sorted for the
  eviction holds the entry just stored, so its first element exists.
\<close>

definition addDocument :: "RAGStore \<Rightarrow> NewDocument \<Rightarrow> AddEnv \<Rightarrow> jsstring \<times> RAGStore" where
  "addDocument store doc env =
     (let id' = generate_id env;
          document = new_document doc env;
          docs = Map_set id' document (documents store);
          docs' =
            (if int (length docs) > maxDocuments (config store) then
               let oldestId = fst (hd (sort_key entry_timestamp docs))
               in Map_delete oldestId docs
             else docs)
      in (id', store\<lparr>documents := docs'\<rparr>))"

definition removeDocument :: "RAGStore \<Rightarrow> jsstring \<Rightarrow> bool \<times> RAGStore" where
  "removeDocument store id' =
     (Map_has id' (documents store), store\<lparr>documents := Map_delete id' (documents store)\<rparr>)"

definition getAllDocuments :: "RAGStore \<Rightarrow> Document list" where
  "getAllDocuments store = map snd (documents store)"

definition clear :: "RAGStore \<Rightarrow> RAGStore" where
  "clear store = store\<lparr>documents := []\<rparr>"

definition getStats :: "RAGStore \<Rightarrow> nat \<times> int" where
  "getStats store =
     (let docs = map snd (documents store)
      in (length docs,
          foldl (\<lambda>sum doc. sum + (case metadata doc of None \<Rightarrow> 0
                   | Some m \<Rightarrow> (case size_md m of None \<Rightarrow> 0 | Some n \<Rightarrow> n))) 0 docs))"

text \<open>
  The states of a store are those that calls of its mutating methods produce from a new
  store: \<open>documents\<close> is private.
\<close>

datatype store_call =
    AddDocument NewDocument AddEnv
  | RemoveDocument jsstring
  | Clear

fun call :: "RAGStore \<Rightarrow> store_call \<Rightarrow> RAGStore" where
  "call store (AddDocument doc env) = snd (addDocument store doc env)"
| "call store (RemoveDocument id') = snd (removeDocument store id')"
| "call store Clear = clear store"

definition calls :: "RAGStore \<Rightarrow> store_call list \<Rightarrow> RAGStore" where
  "calls store cs = foldl call store cs"


text \<open>
  What every state of a store satisfies: keys are distinct, each document is stored under
  its own id, and each document has an embedding.
\<close>

definition store_ok :: "RAGStore \<Rightarrow> bool" where
  "store_ok store \<longleftrightarrow>
     distinct (map fst (documents store))
     \<and> (\<forall>e\<in>set (documents store). id_doc (snd e) = fst e \<and> embedding (snd e) \<noteq> None)"




definition generateContext :: "Document list \<Rightarrow> jsstring" where
  "generateContext docs =
     (if length docs = 0 then []
      else
        let context =
              join ([newline, newline] @ lit ''---'' @ [newline, newline])
                (map (\<lambda>(doc, index).
                        lit ''Document '' @ decimal (index + 1) @ lit '' ('' @ title doc
                        @ lit ''):'' @ [newline] @ content doc)
                   (zip docs [0..<length docs]))
        in lit ''Context from '' @ decimal (length docs) @ lit '' relevant document(s):''
           @ [newline, newline] @ context)"

subsection \<open>Example values\<close>


definition example_env :: "nat \<Rightarrow> AddEnv" where
  "example_env n = \<lparr>now_id = n, random_suffix = lit ''k3x9q2m1z'', now_timestamp = n\<rparr>"

definition example_metadata :: Metadata where
  "example_metadata =
     \<lparr>source = Some (lit ''upload''), type_md = Some (lit ''guide''),
      timestamp = Some 5, size_md = Some 7\<rparr>"









section \<open>fileUtils.ts\<close>

definition dquote :: jschar where
  "dquote = 34"

definition MAX_FILE_SIZE :: nat where
  "MAX_FILE_SIZE = 10 * 1024 * 1024"

text \<open>
  The regular expressions of \<open>TEXT_FILE_PATTERNS\<close> have two shapes: \<open>/^p/\<close>, which
  accepts the strings that start with \<open>p\<close>, and \<open>/^p(a|b|...)$/\<close>, which accepts
  exactly the strings \<open>pa\<close>, \<open>pb\<close>, ...
\<close>

datatype pattern =
    StartsWith string
  | OneOf string "string list"

fun test :: "pattern \<Rightarrow> jsstring \<Rightarrow> bool" where
  "test (StartsWith p) s = (take (length p) s = lit p)"
| "test (OneOf p alts) s = (s \<in> set (map (\<lambda>alt. lit (p @ alt)) alts))"

definition TEXT_FILE_PATTERNS :: "pattern list" where
  "TEXT_FILE_PATTERNS =
     [StartsWith ''text/'',
      OneOf ''application/'' [''javascript'', ''json'', ''xml'', ''yaml''],
      OneOf ''application/x-'' [''python'', ''java'', ''c'', ''cpp'', ''csharp'', ''php'',
                                ''ruby'', ''perl'', ''shell'', ''sh''],
      OneOf ''application/'' [''toml'', ''ini'']]"

definition isTextMimeType :: "jsstring \<Rightarrow> bool" where
  "isTextMimeType mimeType = list_ex (\<lambda>pattern. test pattern mimeType) TEXT_FILE_PATTERNS"

text \<open>
  \<open>filename.split('.').pop()?.toLowerCase()\<close>: what follows the last dot, or the whole
  name when it has no dot, in lower case.
\<close>

definition extension_of :: "jsstring \<Rightarrow> jsstring" where
  "extension_of filename = toLowerCase (rev (takeWhile (\<lambda>c. c \<noteq> 46) (rev filename)))"

text \<open>
  The table of \<open>getMimeTypeFromExtension\<close>. The table is an object literal, so the two
  lower-case names it inherits, \<open>constructor\<close> and \<open>__proto__\<close>, look up an object that
  is not a string: no pattern matches it and neither name is a text extension, so the
  classification is the one obtained here, with \<open>application/octet-stream\<close>.
\<close>

definition mimeTypes :: "(string \<times> string) list" where
  "mimeTypes =
     [(''txt'', ''text/plain''), (''md'', ''text/markdown''), (''html'', ''text/html''),
      (''htm'', ''text/html''), (''css'', ''text/css''), (''csv'', ''text/csv''),
      (''rtf'', ''text/rtf''),
      (''js'', ''application/javascript''), (''mjs'', ''application/javascript''),
      (''json'', ''application/json''), (''py'', ''text/x-python''), (''java'', ''text/x-java''),
      (''c'', ''text/x-c''), (''cpp'', ''text/x-c++''), (''cc'', ''text/x-c++''),
      (''cxx'', ''text/x-c++''), (''h'', ''text/x-c''), (''hpp'', ''text/x-c++''),
      (''cs'', ''text/x-csharp''), (''php'', ''text/x-php''), (''rb'', ''text/x-ruby''),
      (''pl'', ''text/x-perl''), (''sh'', ''application/x-sh''), (''bash'', ''application/x-sh''),
      (''zsh'', ''application/x-sh''), (''fish'', ''application/x-sh''), (''sql'', ''text/x-sql''),
      (''xml'', ''application/xml''), (''yaml'', ''application/yaml''),
      (''yml'', ''application/yaml''), (''toml'', ''application/toml''),
      (''ini'', ''text/plain''), (''cfg'', ''text/plain''), (''conf'', ''text/plain''),
      (''log'', ''text/plain''),
      (''ts'', ''application/typescript''), (''tsx'', ''application/typescript''),
      (''svg'', ''image/svg+xml''),
      (''jpg'', ''image/jpeg''), (''jpeg'', ''image/jpeg''), (''png'', ''image/png''),
      (''gif'', ''image/gif''), (''webp'', ''image/webp''), (''bmp'', ''image/bmp''),
      (''ico'', ''image/x-icon''),
      (''pdf'', ''application/pdf''), (''doc'', ''application/msword''),
      (''docx'', ''application/vnd.openxmlformats-officedocument.wordprocessingml.document''),
      (''xls'', ''application/vnd.ms-excel''),
      (''xlsx'', ''application/vnd.openxmlformats-officedocument.spreadsheetml.sheet''),
      (''ppt'', ''application/vnd.ms-powerpoint''),
      (''pptx'', ''application/vnd.openxmlformats-officedocument.presentationml.presentation''),
      (''zip'', ''application/zip''), (''rar'', ''application/x-rar-compressed''),
      (''7z'', ''application/x-7z-compressed''), (''tar'', ''application/x-tar''),
      (''gz'', ''application/gzip''),
      (''mp3'', ''audio/mpeg''), (''wav'', ''audio/wav''), (''ogg'', ''audio/ogg''),
      (''mp4'', ''video/mp4''), (''avi'', ''video/x-msvideo''), (''mov'', ''video/quicktime''),
      (''webm'', ''video/webm'')]"

definition getMimeTypeFromExtension :: "jsstring \<Rightarrow> jsstring" where
  "getMimeTypeFromExtension filename =
     (let ext = extension_of filename
      in case map_of (map (\<lambda>(k, v). (lit k, lit v)) mimeTypes) ext of
           Some mimeType \<Rightarrow> mimeType
         | None \<Rightarrow> lit ''application/octet-stream'')"

definition textExtensions :: "string list" where
  "textExtensions =
     [''txt'', ''md'', ''html'', ''htm'', ''css'', ''csv'', ''rtf'',
      ''js'', ''mjs'', ''json'', ''py'', ''java'', ''c'', ''cpp'', ''cc'', ''cxx'', ''h'', ''hpp'',
      ''cs'', ''php'', ''rb'', ''pl'', ''sh'', ''bash'', ''zsh'', ''fish'', ''sql'', ''xml'',
      ''yaml'', ''yml'', ''toml'', ''ini'', ''cfg'', ''conf'', ''log'', ''ts'', ''tsx'']"

definition isTextFileExtension :: "jsstring \<Rightarrow> bool" where
  "isTextFileExtension filename \<longleftrightarrow> extension_of filename \<in> set (map lit textExtensions)"

text \<open>
  A \<open>File\<close> with what a \<open>FileReader\<close> will report for it: \<open>onload\<close> with a result,
  or \<open>onerror\<close>.
\<close>

datatype read_outcome = Loaded jsstring | ReadError

record File =
  name_file :: jsstring
  type_file :: jsstring
  size_file :: nat
  readAsText_file :: read_outcome
  readAsDataURL_file :: read_outcome

datatype js_error = Error (message: jsstring)

text \<open>
  \<open>result.split(',')[1]\<close>: the second piece, \<open>undefined\<close> (here \<open>None\<close>) when there is
  no comma.
\<close>

fun split_comma :: "jsstring \<Rightarrow> jsstring \<Rightarrow> jsstring list" where
  "split_comma piece [] = [piece]"
| "split_comma piece (c # cs) =
     (if c = 44 then piece # split_comma [] cs else split_comma (piece @ [c]) cs)"

definition readFileAsBase64 :: "File \<Rightarrow> js_error + jsstring option" where
  "readFileAsBase64 file =
     (case readAsDataURL_file file of
        Loaded result \<Rightarrow>
          if result \<noteq> [] then
            (let pieces = split_comma [] result
             in Inr (if 1 < length pieces then Some (pieces ! 1) else None))
          else Inl (Error (lit ''Failed to read file''))
      | ReadError \<Rightarrow> Inl (Error (lit ''File reading error'')))"

definition readFileAsText :: "File \<Rightarrow> js_error + jsstring" where
  "readFileAsText file =
     (case readAsText_file file of
        Loaded result \<Rightarrow>
          if result \<noteq> [] then Inr result else Inl (Error (lit ''Failed to read file''))
      | ReadError \<Rightarrow> Inl (Error (lit ''File reading error'')))"

text \<open>
  \<open>MessageExtraTextFile name content\<close> is \<open>{type: 'textFile', name, content}\<close> and
  \<open>MessageExtraFile name mimeType size content isText\<close> is
  \<open>{type: 'file', name, mimeType, size, content, isText}\<close>.
\<close>

datatype MessageExtra =
    MessageExtraTextFile jsstring jsstring
  | MessageExtraFile jsstring jsstring nat "jsstring option" bool

text \<open>
  \<open>processFile\<close> returns, with its result, the reads it started on the file, in order.
  \<open>MAX_FILE_SIZE / 1024 / 1024\<close> is a whole number, which \<open>Math.round\<close> leaves as it is.
\<close>

datatype read_call = ReadAsText | ReadAsDataURL

definition processFile :: "File \<Rightarrow> read_call list \<times> (js_error + MessageExtra)" where
  "processFile file =
     (if size_file file > MAX_FILE_SIZE then
        ([], Inl (Error (lit ''File '' @ [dquote] @ name_file file @ [dquote]
                         @ lit '' is too large. Maximum size is ''
                         @ decimal (MAX_FILE_SIZE div 1024 div 1024) @ lit ''MB.'')))
      else
        let mimeType = (if type_file file \<noteq> [] then type_file file
                        else getMimeTypeFromExtension (name_file file));
            isText = (isTextMimeType mimeType \<or> isTextFileExtension (name_file file));
            failed = (\<lambda>error. Inl (Error (lit ''Failed to process file '' @ [dquote]
                        @ name_file file @ [dquote] @ lit '': '' @ message error)))
        in if isText then
             (case readFileAsText file of
                Inr textContent \<Rightarrow>
                  ([ReadAsText], Inr (MessageExtraTextFile (name_file file) textContent))
              | Inl _ \<Rightarrow>
                  (case readFileAsBase64 file of
                     Inr base64Content \<Rightarrow>
                       ([ReadAsText, ReadAsDataURL],
                        Inr (MessageExtraFile (name_file file) mimeType (size_file file)
                               base64Content True))
                   | Inl error \<Rightarrow> ([ReadAsText, ReadAsDataURL], failed error)))
           else
             (case readFileAsBase64 file of
                Inr base64Content \<Rightarrow>
                  ([ReadAsDataURL],
                   Inr (MessageExtraFile (name_file file) mimeType (size_file file)
                          base64Content False))
              | Inl error \<Rightarrow> ([ReadAsDataURL], failed error)))"

text \<open>
  \<open>Math.floor(Math.log(bytes) / Math.log(k))\<close>, computed exactly: the largest \<open>i\<close> with
  \<open>k ^ i \<le> bytes\<close>. The quotient of two doubles can round up to the next integer for
  sizes just below a large power of \<open>k\<close>.
\<close>

function floor_log :: "nat \<Rightarrow> nat \<Rightarrow> nat" where
  "floor_log k n = (if k < 2 \<or> n < k then 0 else Suc (floor_log k (n div k)))"
  by pat_completeness auto
termination
  by (relation "measure (\<lambda>(k, n). n)") auto

declare floor_log.simps [simp del]

text \<open>
  \<open>x.toFixed(1)\<close> prints \<open>n / 10\<close> for the integer \<open>n\<close> that makes \<open>n / 10\<close> closest to
  \<open>x\<close>, the larger one on a tie. For \<open>x = num / den\<close> this \<open>n\<close> is \<open>tenths num den\<close>;
  the division by a power of 1024 is exact in floating point.
\<close>

definition tenths :: "nat \<Rightarrow> nat \<Rightarrow> nat" where
  "tenths num den = (20 * num + den) div (2 * den)"

text \<open>
  \<open>parseFloat\<close> of the digits \<open>a.b\<close> and the conversion back to a string give \<open>a\<close> when
  \<open>b\<close> is 0 and \<open>a.b\<close> otherwise. An index outside \<open>sizes\<close> reads \<open>undefined\<close>.
\<close>

definition formatFileSize :: "nat \<Rightarrow> jsstring" where
  "formatFileSize bytes =
     (if bytes = 0 then lit ''0 B''
      else
        let k = 1024;
            sizes = [lit ''B'', lit ''KB'', lit ''MB'', lit ''GB''];
            i = floor_log k bytes;
            n = tenths bytes (k ^ i);
            shown = (if n mod 10 = 0 then decimal (n div 10)
                     else decimal (n div 10) @ lit ''.'' @ decimal (n mod 10))
        in shown @ lit '' '' @ (if i < length sizes then sizes ! i else lit ''undefined''))"

definition example_file :: File where
  "example_file =
     \<lparr>name_file = lit ''notes.txt'', type_file = lit ''application/octet-stream'',
      size_file = 3, readAsText_file = Loaded (lit ''abc''),
      readAsDataURL_file = Loaded (lit ''data:application/octet-stream;base64,YWJj'')\<rparr>"

section \<open>The context format of the specification\<close>

text \<open>
  The specification's words: each document is a numbered block with its title and its
  content, and consecutive blocks are separated by a blank line, a line \<open>---\<close> and a
  blank line.
\<close>

definition spec_block :: "nat \<Rightarrow> Document \<Rightarrow> jsstring" where
  "spec_block i doc =
     lit ''Document '' @ decimal i @ lit '' ('' @ title doc @ lit ''):'' @ [newline] @ content doc"

fun spec_blocks :: "nat \<Rightarrow> Document list \<Rightarrow> jsstring" where
  "spec_blocks i [] = []"
| "spec_blocks i [doc] = spec_block i doc"
| "spec_blocks i (doc # doc' # docs) =
     spec_block i doc @ [newline] @ [newline] @ lit ''---'' @ [newline] @ [newline]
     @ spec_blocks (i + 1) (doc' # docs)"

definition example_docs :: "Document list" where
  "example_docs =
     [\<lparr>id_doc = lit ''doc_1_a'', title = lit ''A'', content = lit ''the quick brown fox'',
       embedding = None, metadata = None\<rparr>,
      \<lparr>id_doc = lit ''doc_2_b'', title = lit ''B'', content = lit ''lazy dog'',
       embedding = None, metadata = None\<rparr>]"

section \<open>Properties of chunkText\<close>

lemma length_js_slice:
  "0 \<le> start \<Longrightarrow> 0 \<le> end' \<Longrightarrow> int (length (js_slice xs start end')) \<le> max 0 (end' - start)"
  by (auto simp: js_slice_def Let_def)

text \<open>
  Under the precondition every iteration that does not exit moves \<open>start\<close> strictly to
  the right, so the distance to the end of the text is a measure.
\<close>

lemma chunkText_start_advances:
  assumes "1 \<le> csize" "ovl < csize"
    and "min (start + csize) (int (length t)) \<noteq> int (length t)"
  shows "start < min (start + csize) (int (length t)) - ovl"
  using assms by (auto simp: min_def split: if_splits)

lemma chunkText_loop_returns:
  assumes "1 \<le> csize" "0 \<le> ovl" "ovl < csize"
  shows "0 \<le> start \<Longrightarrow> \<forall>c\<in>set chunks. int (length c) \<le> csize \<Longrightarrow>
         \<exists>res. chunkText_loop t csize ovl start chunks = Some res
             \<and> (\<forall>c\<in>set res. int (length c) \<le> csize)"
proof (induction "nat (int (length t) - start)" arbitrary: start chunks rule: less_induct)
  case less
  show ?case
  proof (cases "start < int (length t)")
    case False
    then show ?thesis using less.prems by (subst chunkText_loop.simps) simp
  next
    case inside: True
    define end' where "end' = min (start + csize) (int (length t))"
    define chunks' where "chunks' = chunks @ [js_slice t start end']"
    have "int (length (js_slice t start end')) \<le> max 0 (end' - start)"
      using less.prems(1) assms(1) by (intro length_js_slice) (simp_all add: end'_def)
    also have "\<dots> \<le> csize" using assms(1) by (simp add: end'_def)
    finally have small: "\<forall>c\<in>set chunks'. int (length c) \<le> csize"
      using less.prems(2) by (simp add: chunks'_def)
    show ?thesis
    proof (cases "end' = int (length t)")
      case True
      then show ?thesis using inside small
        by (subst chunkText_loop.simps) (simp add: Let_def end'_def chunks'_def)
    next
      case False
      then have e: "end' = start + csize" "end' < int (length t)"
        by (auto simp: end'_def min_def split: if_splits)
      have adv: "start < end' - ovl" using assms e by simp
      have "nat (int (length t) - (end' - ovl)) < nat (int (length t) - start)"
        using adv inside by simp
      moreover have "0 \<le> end' - ovl" using adv less.prems(1) by simp
      ultimately obtain res where
        "chunkText_loop t csize ovl (end' - ovl) chunks' = Some res"
        "\<forall>c\<in>set res. int (length c) \<le> csize"
        using less.hyps small by blast
      then show ?thesis using inside False
        by (subst chunkText_loop.simps) (simp add: Let_def end'_def chunks'_def)
    qed
  qed
qed

text \<open>
  With \<open>overlap \<ge> chunkSize\<close> and a text longer than \<open>chunkSize\<close>, \<open>start\<close> never
  becomes positive and \<open>end\<close> never reaches the end of the text: no run returns.
\<close>

lemma chunkText_loop_diverges:
  assumes "chunkText_loop t csize ovl start chunks = Some res"
  shows "\<not> (csize \<le> ovl \<and> csize < int (length t) \<and> start \<le> 0 \<and> start < int (length t))"
  using assms
proof (induction rule: chunkText_loop.raw_induct[rotated 1, consumes 1])
  case (1 loop t csize ovl start chunks res)
  show ?case
  proof
    assume a: "csize \<le> ovl \<and> csize < int (length t) \<and> start \<le> 0 \<and> start < int (length t)"
    then have m: "min (start + csize) (int (length t)) = start + csize"
      and ne: "start + csize \<noteq> int (length t)" by auto
    from 1(2) a have "loop t csize ovl (start + csize - ovl)
         (chunks @ [js_slice t start (start + csize)]) = Some res"
      by (simp add: Let_def m ne)
    from 1(1)[OF this] a show False by auto
  qed
qed

text \<open>
  Claim C10. For \<open>chunkSize \<ge> 1\<close> and \<open>0 \<le> overlap < chunkSize\<close>, \<open>chunkText\<close> returns,
  and every chunk it returns has at most \<open>chunkSize\<close> code units. The bound on
  \<open>overlap\<close> is needed: with \<open>overlap \<ge> chunkSize\<close> and a text longer than
  \<open>chunkSize\<close> the loop never returns.
\<close>

theorem chunkText_terminates:
  "(1 \<le> csize \<and> 0 \<le> ovl \<and> ovl < csize \<longrightarrow>
      (\<exists>chunks. chunkText t csize ovl = Some chunks
          \<and> (\<forall>c\<in>set chunks. int (length c) \<le> csize)))
   \<and> (1 \<le> csize \<and> csize \<le> ovl \<and> csize < int (length t) \<longrightarrow>
      chunkText t csize ovl = None)"
proof (intro conjI impI)
  assume "1 \<le> csize \<and> 0 \<le> ovl \<and> ovl < csize"
  then show "\<exists>chunks. chunkText t csize ovl = Some chunks
          \<and> (\<forall>c\<in>set chunks. int (length c) \<le> csize)"
    unfolding chunkText_def using chunkText_loop_returns[of csize ovl 0 "[]" t] by simp
next
  assume a: "1 \<le> csize \<and> csize \<le> ovl \<and> csize < int (length t)"
  show "chunkText t csize ovl = None"
  proof (cases "chunkText t csize ovl")
    case (Some res)
    then show ?thesis
      unfolding chunkText_def using chunkText_loop_diverges[of t csize ovl 0 "[]" res] a
      by auto
  qed simp
qed

theorem chunkText_terminates_witness:
  "(\<exists>chunks. chunkText (lit ''abcdefgh'') 3 1 = Some chunks
          \<and> (\<forall>c\<in>set chunks. int (length c) \<le> 3))
   \<and> chunkText (lit ''abcdefgh'') 3 3 = None"
  using chunkText_terminates[of 3 1 "lit ''abcdefgh''"]
        chunkText_terminates[of 3 3 "lit ''abcdefgh''"]
  by (simp add: lit_def)

section \<open>The code's hash is the specification's hash\<close>

lemma sint_ToInt32: "sint (ToInt32 x) = wrap_signed32 x"
  by (simp add: ToInt32_def wrap_signed32_def signed_of_int
      signed_take_bit_eq_take_bit_shift take_bit_eq_mod)

lemma ToInt32_all_ones: "w AND ToInt32 4294967295 = w"
proof -
  have "ToInt32 4294967295 = - 1" by (simp add: ToInt32_def)
  then show ?thesis by simp
qed

lemma wrap_signed32_cong: "x mod 2 ^ 32 = y mod 2 ^ 32 \<Longrightarrow> wrap_signed32 x = wrap_signed32 y"
  unfolding wrap_signed32_def by (metis mod_add_left_eq)

lemma wrap_signed32_mod: "wrap_signed32 x mod 2 ^ 32 = x mod 2 ^ 32"
  unfolding wrap_signed32_def
  by (smt (verit, ccfv_threshold) mod_add_self2 mod_diff_left_eq mod_mod_trivial)

lemma hash_step_eq: "hash_step h c = spec_hash_step h c"
proof -
  have "sint (push_bit 5 (ToInt32 h)) = wrap_signed32 (h * 32)"
    by (simp add: ToInt32_def push_bit_eq_mult flip: sint_ToInt32[unfolded ToInt32_def])
  then have "hash_step h c = wrap_signed32 (wrap_signed32 (h * 32) - h + charCodeAt c)"
    by (simp add: hash_step_def ToInt32_all_ones sint_ToInt32)
  also have "\<dots> = wrap_signed32 (h * 31 + charCodeAt c)"
  proof (rule wrap_signed32_cong)
    have "(wrap_signed32 (h * 32) - h + charCodeAt c) mod 2 ^ 32
        = (h * 32 - h + charCodeAt c) mod 2 ^ 32"
      by (intro mod_add_cong mod_diff_cong refl wrap_signed32_mod)
    then show "(wrap_signed32 (h * 32) - h + charCodeAt c) mod 2 ^ 32
        = (h * 31 + charCodeAt c) mod 2 ^ 32" by (simp add: mult.commute)
  qed
  finally show ?thesis by (simp add: spec_hash_step_def)
qed

lemma word_hash_eq: "word_hash word = spec_hash word"
  by (simp add: word_hash_def spec_hash_def hash_step_eq[abs_def])

text \<open>
  Claim C5. For every token, the bucket index computed with
  \<open>((hash << 5) - hash + charCode) & 0xffffffff\<close> and \<open>Math.abs(hash) % 100\<close> is the
  index of the specification's reference algorithm.
\<close>

theorem bucket_index_refines_spec:
  "bucket_index word = spec_bucket_index word \<and> bucket_index word < 100"
proof -
  have "\<bar>word_hash word\<bar> mod 100 < 100" by simp
  then have "bucket_index word < 100" unfolding bucket_index_def by linarith
  then show ?thesis by (simp add: bucket_index_def spec_bucket_index_def word_hash_eq)
qed

section \<open>The map of documents\<close>


lemma keys_Map_set: "fst ` set (Map_set k v es) = insert k (fst ` set es)"
  by (induction es) auto

lemma distinct_Map_set: "distinct (map fst es) \<Longrightarrow> distinct (map fst (Map_set k v es))"
  by (induction es) (auto simp: keys_Map_set)



lemma set_Map_set: "distinct (map fst es) \<Longrightarrow>
  set (Map_set k v es) = insert (k, v) {e \<in> set es. fst e \<noteq> k}"
  by (induction es) (auto simp: rev_image_eqI)


lemma distinct_Map_delete: "distinct (map fst es) \<Longrightarrow> distinct (map fst (Map_delete k es))"
  by (simp add: Map_delete_def distinct_map_filter)






section \<open>Capacity of the store\<close>

lemma fst_addDocument: "fst (addDocument s d e) = generate_id e"
  by (simp add: addDocument_def Let_def)


lemma documents_addDocument:
  "documents (snd (addDocument s d e)) =
     (let docs = Map_set (generate_id e) (new_document d e) (documents s)
      in if int (length docs) > maxDocuments (config s)
         then Map_delete (fst (hd (sort_key entry_timestamp docs))) docs else docs)"
  by (simp add: addDocument_def Let_def)




lemma store_ok_new: "store_ok (RAGStore_new cfg)"
  by (simp add: store_ok_def RAGStore_new_def)

lemma store_ok_Map_set:
  assumes "store_ok s"
  shows "store_ok (s\<lparr>documents := Map_set (generate_id e) (new_document d e) (documents s)\<rparr>)"
proof -
  have "distinct (map fst (documents s))" using assms by (simp add: store_ok_def)
  then show ?thesis
    using assms by (auto simp: store_ok_def distinct_Map_set set_Map_set new_document_def)
qed

lemma store_ok_Map_delete:
  assumes "store_ok s"
  shows "store_ok (s\<lparr>documents := Map_delete k (documents s)\<rparr>)"
  using assms by (auto simp: store_ok_def distinct_Map_delete) (auto simp: Map_delete_def)

lemma store_ok_addDocument: "store_ok s \<Longrightarrow> store_ok (snd (addDocument s d e))"
  using store_ok_Map_delete[OF store_ok_Map_set, of s _ e d] store_ok_Map_set[of s e d]
  by (simp add: addDocument_def Let_def)

lemma store_ok_call: "store_ok s \<Longrightarrow> store_ok (call s c)"
proof (cases c)
  case (AddDocument d e)
  assume "store_ok s" then show ?thesis using AddDocument by (simp add: store_ok_addDocument)
next
  case (RemoveDocument k)
  assume "store_ok s" then show ?thesis using RemoveDocument store_ok_Map_delete[of s k]
    by (simp add: removeDocument_def)
next
  case Clear
  then show ?thesis by (simp add: clear_def store_ok_def)
qed

lemma store_ok_calls: "store_ok s \<Longrightarrow> store_ok (calls s cs)"
  unfolding calls_def by (induction cs arbitrary: s) (simp_all add: store_ok_call)






















section \<open>Metadata of stored documents\<close>

lemma added_entry:
  assumes "store_ok s" "e \<in> set (documents (snd (addDocument s d env)))" "fst e = generate_id env"
  shows "snd e = new_document d env"
proof -
  define docs where "docs = Map_set (generate_id env) (new_document d env) (documents s)"
  have "distinct (map fst (documents s))" using assms(1) by (simp add: store_ok_def)
  then have set_docs: "set docs = insert (generate_id env, new_document d env)
                        {x \<in> set (documents s). fst x \<noteq> generate_id env}"
    by (simp add: docs_def set_Map_set)
  have "set (documents (snd (addDocument s d env))) \<subseteq> set docs"
    by (auto simp: documents_addDocument Let_def Map_delete_def simp flip: docs_def)
  then have "e \<in> set docs" using assms(2) by blast
  then show ?thesis using assms(3) set_docs by auto
qed

text \<open>
  Claim C2. A document found in the store under the id that \<open>addDocument\<close> returned has
  the timestamp read from the clock by that call and the length of its content as size,
  whatever the caller supplied for these two keys, and the caller's \<open>source\<close> and
  \<open>type\<close> unchanged.
\<close>

theorem metadata_store_assigned:
  "let s = calls (RAGStore_new cfg) cs;
       (id', s') = addDocument s doc env
   in \<forall>d\<in>set (getAllDocuments s'). id_doc d = id' \<longrightarrow>
        (\<exists>m. metadata d = Some m
           \<and> timestamp m = Some (int (now_timestamp env))
           \<and> size_md m = Some (int (length (new_content doc)))
           \<and> (case new_metadata doc of
                 None \<Rightarrow> source m = None \<and> type_md m = None
               | Some given \<Rightarrow> source m = source given \<and> type_md m = type_md given))"
proof -
  define s where "s = calls (RAGStore_new cfg) cs"
  have ok: "store_ok s" by (simp add: s_def store_ok_calls store_ok_new)
  have ok': "store_ok (snd (addDocument s doc env))" using ok by (rule store_ok_addDocument)
  have "\<exists>m. metadata d = Some m
           \<and> timestamp m = Some (int (now_timestamp env))
           \<and> size_md m = Some (int (length (new_content doc)))
           \<and> (case new_metadata doc of
                 None \<Rightarrow> source m = None \<and> type_md m = None
               | Some given \<Rightarrow> source m = source given \<and> type_md m = type_md given)"
    if d: "d \<in> set (getAllDocuments (snd (addDocument s doc env)))"
      and idd: "id_doc d = fst (addDocument s doc env)" for d
  proof -
    obtain e where e: "e \<in> set (documents (snd (addDocument s doc env)))" "snd e = d"
      using d by (auto simp: getAllDocuments_def)
    then have "fst e = generate_id env"
      using ok' idd by (auto simp: store_ok_def fst_addDocument)
    then have "d = new_document doc env" using added_entry[OF ok e(1)] e(2) by simp
    then show ?thesis
      by (simp add: new_document_def spread_metadata_def split: option.split)
  qed
  then show ?thesis unfolding Let_def s_def by (simp add: case_prod_beta)
qed

theorem metadata_store_assigned_witness:
  "\<exists>d\<in>set (getAllDocuments (snd (addDocument (calls (RAGStore_new DEFAULT_RAG_CONFIG) [])
        \<lparr>new_title = lit ''t'', new_content = lit ''abc'', new_metadata = Some example_metadata\<rparr>
        (example_env 1700)))).
     id_doc d = generate_id (example_env 1700)
     \<and> (\<exists>m. metadata d = Some m \<and> timestamp m = Some 1700 \<and> size_md m = Some 3
           \<and> source m = Some (lit ''upload'') \<and> type_md m = Some (lit ''guide''))"
proof -
  let ?doc = "\<lparr>new_title = lit ''t'', new_content = lit ''abc'', new_metadata = Some example_metadata\<rparr>"
  let ?s = "calls (RAGStore_new DEFAULT_RAG_CONFIG) []"
  let ?d = "new_document ?doc (example_env 1700)"
  have docs: "getAllDocuments (snd (addDocument ?s ?doc (example_env 1700))) = [?d]"
    by (simp add: getAllDocuments_def documents_addDocument calls_def RAGStore_new_def
        DEFAULT_RAG_CONFIG_def)
  have idd: "id_doc ?d = fst (addDocument ?s ?doc (example_env 1700))"
    by (simp add: fst_addDocument new_document_def)
  have "\<exists>m. metadata ?d = Some m
           \<and> timestamp m = Some (int (now_timestamp (example_env 1700)))
           \<and> size_md m = Some (int (length (new_content ?doc)))
           \<and> (case new_metadata ?doc of
                 None \<Rightarrow> source m = None \<and> type_md m = None
               | Some given \<Rightarrow> source m = source given \<and> type_md m = type_md given)"
    using metadata_store_assigned[of DEFAULT_RAG_CONFIG "[]" ?doc "example_env 1700"] docs idd
    unfolding Let_def by (simp add: case_prod_beta)
  then have "\<exists>m. metadata ?d = Some m \<and> timestamp m = Some 1700 \<and> size_md m = Some 3
           \<and> source m = Some (lit ''upload'') \<and> type_md m = Some (lit ''guide'')"
    by (simp add: example_env_def example_metadata_def lit_def)
  moreover have "id_doc ?d = generate_id (example_env 1700)" by (simp add: new_document_def)
  ultimately show ?thesis unfolding docs by simp
qed

section \<open>Trimming, slicing and sorting\<close>





section \<open>The embedding\<close>

lemma foldl_sum_squares:
  "foldl (\<lambda>sum val. sum + val * val) acc xs = acc + sum_list (map (\<lambda>x. x * x) (xs :: real list))"
  by (induction xs arbitrary: acc) simp_all

lemma sum_list_update_real:
  "k < length xs \<Longrightarrow> sum_list (xs[k := x]) = sum_list xs - xs ! k + (x::real)"
  by (induction xs arbitrary: k) (auto split: nat.split)

lemma length_count_words: "length (count_words ws emb) = length emb"
  unfolding count_words_def by (induction ws arbitrary: emb) (simp_all add: Let_def)

lemma count_words_snoc:
  "count_words (ws @ [w]) emb =
     (let emb' = count_words ws emb; index = nat (\<bar>word_hash w\<bar> mod int (length emb'))
      in emb'[index := emb' ! index + 1])"
  by (simp add: count_words_def Let_def)

lemma count_words_props:
  assumes "emb \<noteq> []" "\<forall>x\<in>set emb. 0 \<le> x"
  shows "sum_list (count_words ws emb) = sum_list emb + real (length ws)
       \<and> (\<forall>x\<in>set (count_words ws emb). 0 \<le> x)"
proof (induction ws rule: rev_induct)
  case Nil
  then show ?case using assms by (simp add: count_words_def)
next
  case (snoc w ws)
  define emb' where "emb' = count_words ws emb"
  define index where "index = nat (\<bar>word_hash w\<bar> mod int (length emb'))"
  have len: "length emb' = length emb" by (simp add: emb'_def length_count_words)
  then have pos: "0 < int (length emb')" using assms(1) by simp
  have "\<bar>word_hash w\<bar> mod int (length emb') < int (length emb')"
    using pos by (rule pos_mod_bound)
  moreover have "0 \<le> \<bar>word_hash w\<bar> mod int (length emb')"
    using pos by (rule pos_mod_sign)
  ultimately have idx: "index < length emb'" unfolding index_def by linarith
  have step: "count_words (ws @ [w]) emb = emb'[index := emb' ! index + 1]"
    by (simp add: count_words_snoc Let_def emb'_def index_def)
  have ih: "sum_list emb' = sum_list emb + real (length ws)" "\<forall>x\<in>set emb'. 0 \<le> x"
    using snoc by (simp_all add: emb'_def)
  have "sum_list (emb'[index := emb' ! index + 1]) = sum_list emb' + 1"
    using idx by (simp add: sum_list_update_real)
  moreover have "\<forall>x\<in>set (emb'[index := emb' ! index + 1]). 0 \<le> x"
  proof
    fix x assume "x \<in> set (emb'[index := emb' ! index + 1])"
    then have "x = emb' ! index + 1 \<or> x \<in> set emb'"
      using set_update_subset_insert[of emb' index "emb' ! index + 1"] by auto
    moreover have "0 \<le> emb' ! index" using ih(2) idx by simp
    ultimately show "0 \<le> x" using ih(2) by auto
  qed
  ultimately show ?case using ih(1) by (simp add: step)
qed

lemma split_from_not_Nil: "split_from word s \<noteq> []"
  by (induction word s rule: split_from.induct) simp_all

lemma sum_squares_pos:
  assumes "\<forall>x\<in>set xs. 0 \<le> (x::real)" "0 < sum_list xs"
  shows "0 < sum_list (map (\<lambda>x. x * x) xs)"
proof -
  obtain x where x: "x \<in> set xs" "0 < x"
    using assms by (metis less_le_not_le sum_list_nonpos leI)
  have "x * x \<le> sum_list (map (\<lambda>x. x * x) xs)"
    using x(1) by (intro member_le_sum_list) auto
  moreover have "0 < x * x" using x(2) by simp
  ultimately show ?thesis by linarith
qed

lemma sum_squares_scaled:
  "sum_list (map (\<lambda>x. x * x) (map (\<lambda>val. val / m) xs)) = sum_list (map (\<lambda>x. x * x) xs) / (m * m)"
  for m :: real
  by (induction xs) (simp_all add: add_divide_distrib)

lemma embedding_shape:
  "length (generateSimpleEmbedding text) = 100 \<and> euclidean_norm (generateSimpleEmbedding text) = 1"
proof -
  define ws where "ws = split_whitespace (toLowerCase text)"
  define emb where "emb = count_words ws (replicate 100 0)"
  define S where "S = sum_list (map (\<lambda>x. x * x) emb)"
  have len: "length emb = 100" by (simp add: emb_def length_count_words)
  have "ws \<noteq> []" by (simp add: ws_def split_whitespace_def split_from_not_Nil)
  then have "0 < length ws" by simp
  moreover have "sum_list emb = sum_list (replicate 100 (0::real)) + real (length ws)"
    and nonneg: "\<forall>x\<in>set emb. 0 \<le> x"
    using count_words_props[of "replicate 100 0" ws] by (simp_all add: emb_def)
  ultimately have "0 < sum_list emb" by (simp add: sum_list_replicate)
  then have S: "0 < S" unfolding S_def using nonneg by (intro sum_squares_pos)
  then have m: "0 < sqrt S" by simp
  have gen: "generateSimpleEmbedding text = map (\<lambda>val. val / sqrt S) emb"
    using m by (simp add: generateSimpleEmbedding_def Let_def foldl_sum_squares
        flip: ws_def emb_def S_def)
  have "sum_list (map (\<lambda>x. x * x) (generateSimpleEmbedding text)) = S / (sqrt S * sqrt S)"
    unfolding gen S_def by (rule sum_squares_scaled)
  also have "\<dots> = 1" using S by simp
  finally show ?thesis by (simp add: euclidean_norm_def gen len)
qed

lemma toLowerCase_blank:
  "(\<forall>c\<in>set s. is_whitespace c) \<Longrightarrow> toLowerCase s = s"
proof -
  have "is_whitespace c \<Longrightarrow> \<not> (65 \<le> c \<and> c \<le> 90)" for c
    by (auto simp: is_whitespace_def word_le_nat_alt)
  then show "(\<forall>c\<in>set s. is_whitespace c) \<Longrightarrow> toLowerCase s = s"
    unfolding toLowerCase_def by (induction s) auto
qed

lemma split_blank:
  assumes "\<forall>c\<in>set s. is_whitespace c"
  shows "split_whitespace s = (if s = [] then [[]] else [[], []])"
proof (cases s)
  case Nil
  then show ?thesis by (simp add: split_whitespace_def)
next
  case (Cons c cs)
  then have d: "dropWhile is_whitespace cs = []" using assms by simp
  show ?thesis using Cons assms by (simp add: split_whitespace_def d)
qed

lemma word_hash_empty: "word_hash [] = 0"
  by (simp add: word_hash_def)

lemma zeros_update_sum:
  "sum_list ((replicate 100 (0::real))[0 := c]) = c"
  by (simp add: sum_list_update_real sum_list_replicate)

lemma embedding_blank:
  assumes "\<forall>c\<in>set text. is_whitespace c"
  shows "generateSimpleEmbedding text = (replicate 100 0)[0 := 1]"
proof -
  have ws: "split_whitespace (toLowerCase text) = (if text = [] then [[]] else [[], []])"
    using assms by (simp add: toLowerCase_blank split_blank)
  show ?thesis
  proof (cases "text = []")
    case True
    have emb: "count_words [[]] (replicate 100 0) = (replicate 100 0)[0 := 1]"
      by (simp add: count_words_def word_hash_empty)
    show ?thesis
      using True ws
      by (simp add: generateSimpleEmbedding_def Let_def emb foldl_sum_squares
          zeros_update_sum map_update)
  next
    case False
    have emb: "count_words [[], []] (replicate 100 0) = (replicate 100 0)[0 := 2]"
      by (simp add: count_words_def word_hash_empty)
    show ?thesis
      using False ws
      by (simp add: generateSimpleEmbedding_def Let_def emb foldl_sum_squares
          zeros_update_sum map_update)
  qed
qed

text \<open>
  Claim C4, evaluated on empty and on blank content: the embedding is not the zero vector
  but the unit vector of index 0, because \<open>split\<close> gives an empty word and the empty word
  hashes to 0.
\<close>

theorem embedding_of_empty_content:
  "generateSimpleEmbedding [] = (replicate 100 0)[0 := 1]
   \<and> generateSimpleEmbedding [] \<noteq> replicate 100 0
   \<and> generateSimpleEmbedding (lit ''  '') = (replicate 100 0)[0 := 1]
   \<and> euclidean_norm (generateSimpleEmbedding []) = 1"
proof -
  have a: "generateSimpleEmbedding [] = (replicate 100 0)[0 := 1]"
    by (rule embedding_blank) simp
  have "((replicate 100 (0::real))[0 := 1]) ! 0 \<noteq> (replicate 100 0) ! 0" by simp
  then have b: "(replicate 100 (0::real))[0 := 1] \<noteq> replicate 100 0" by metis
  have c: "generateSimpleEmbedding (lit ''  '') = (replicate 100 0)[0 := 1]"
    by (rule embedding_blank) (simp add: lit_def is_whitespace_def)
  show ?thesis using a b c embedding_shape[of "[]"] by simp
qed

section \<open>Search results\<close>

lemma cosine_loop:
  "foldl (\<lambda>(dotProduct, normA, normB) i.
            (dotProduct + a ! i * b ! i, normA + a ! i * a ! i, normB + b ! i * b ! i))
     (0, 0, 0) [0..<n]
   = (\<Sum>i = 0..<n. a ! i * b ! i, \<Sum>i = 0..<n. a ! i * a ! i, \<Sum>i = 0..<n. b ! i * (b ! i :: real))"
  by (induction n) simp_all

lemma sum_squares_nth:
  "(\<Sum>i = 0..<length v. v ! i * v ! i) = sum_list (map (\<lambda>x. x * x) (v :: real list))"
  by (simp add: sum_list_sum_nth)

lemma cosineSimilarity_self:
  assumes "euclidean_norm v = 1"
  shows "cosineSimilarity v v = 1"
proof -
  define S where "S = sum_list (map (\<lambda>x. x * x) v)"
  have "sqrt S = 1" using assms by (simp add: euclidean_norm_def S_def)
  then have S: "S = 1" by simp
  show ?thesis
    by (simp add: cosineSimilarity_def cosine_loop sum_squares_nth flip: S_def) (simp add: S)
qed























section \<open>The context string\<close>

lemma join_Cons: "ys \<noteq> [] \<Longrightarrow> join sep (x # ys) = x @ sep @ join sep ys"
  by (cases ys) simp_all

lemma join_blocks:
  "join ([newline, newline] @ lit ''---'' @ [newline, newline])
     (map (\<lambda>(doc, index).
             lit ''Document '' @ decimal (index + 1) @ lit '' ('' @ title doc
             @ lit ''):'' @ [newline] @ content doc)
        (zip docs [k..<k + length docs]))
   = spec_blocks (k + 1) docs"
proof (induction docs arbitrary: k)
  case Nil
  then show ?case by simp
next
  case (Cons d ds)
  define render where "render = (\<lambda>(doc :: Document, index).
             lit ''Document '' @ decimal (index + 1) @ lit '' ('' @ title doc
             @ lit ''):'' @ [newline] @ content doc)"
  define sep where "sep = [newline, newline] @ lit ''---'' @ [newline, newline]"
  define rest where "rest = map render (zip ds [Suc k..<Suc k + length ds])"
  have range: "[k..<k + length (d # ds)] = k # [Suc k..<Suc k + length ds]"
    by (simp add: upt_conv_Cons del: upt_Suc)
  have first: "render (d, k) = spec_block (k + 1) d"
    by (simp add: render_def spec_block_def)
  have ih: "join sep rest = spec_blocks (Suc k + 1) ds"
    using Cons.IH[of "Suc k"] by (simp add: rest_def render_def sep_def)
  have all: "map render (zip (d # ds) [k..<k + length (d # ds)]) = render (d, k) # rest"
    unfolding range by (simp add: rest_def)
  show ?case
  proof (cases ds)
    case Nil
    then have "rest = []" by (simp add: rest_def)
    then have "join sep (map render (zip (d # ds) [k..<k + length (d # ds)]))
        = spec_blocks (k + 1) (d # ds)"
      using Nil first by (simp only: all) simp
    then show ?thesis unfolding render_def sep_def .
  next
    case (Cons d' ds')
    then have "length rest = length ds" by (simp add: rest_def del: upt_Suc)
    then have ne: "rest \<noteq> []" using Cons by auto
    have "join sep (map render (zip (d # ds) [k..<k + length (d # ds)]))
        = join sep (render (d, k) # rest)" by (simp only: all)
    also have "\<dots> = render (d, k) @ sep @ join sep rest" using ne by (rule join_Cons)
    also have "\<dots> = spec_block (k + 1) d @ sep @ spec_blocks (Suc k + 1) ds"
      by (simp only: first ih)
    also have "\<dots> = spec_blocks (k + 1) (d # ds)" using Cons by (simp add: sep_def)
    finally have "join sep (map render (zip (d # ds) [k..<k + length (d # ds)]))
        = spec_blocks (k + 1) (d # ds)" .
    then show ?thesis unfolding render_def sep_def .
  qed
qed

text \<open>
  Claim C6. \<open>generateContext\<close> of no document is the empty string. Otherwise it is the
  header \<open>Context from N relevant document(s):\<close>, a blank line, and the documents as
  blocks numbered from 1, each \<open>Document i (title):\<close> followed by the content, with a
  line \<open>---\<close> between blank lines between consecutive blocks.
\<close>

theorem generateContext_format:
  "generateContext [] = []
   \<and> (docs \<noteq> [] \<longrightarrow>
        generateContext docs =
          lit ''Context from '' @ decimal (length docs) @ lit '' relevant document(s):''
          @ [newline] @ [newline] @ spec_blocks 1 docs)"
  using join_blocks[of docs 0] by (simp add: generateContext_def Let_def)

theorem generateContext_format_witness:
  "generateContext example_docs =
          lit ''Context from 2 relevant document(s):'' @ [newline] @ [newline]
          @ lit ''Document 1 (A):'' @ [newline] @ lit ''the quick brown fox'' @ [newline]
          @ [newline] @ lit ''---'' @ [newline] @ [newline]
          @ lit ''Document 2 (B):'' @ [newline] @ lit ''lazy dog''"
proof -
  have d1: "decimal (Suc 0) = lit ''1''" and d2: "decimal 2 = lit ''2''"
    and d2': "decimal (Suc (Suc 0)) = lit ''2''"
    by (simp_all add: decimal.simps lit_def)
  have ne: "example_docs \<noteq> []" by (simp add: example_docs_def)
  have "generateContext example_docs =
          lit ''Context from '' @ decimal (length example_docs) @ lit '' relevant document(s):''
          @ [newline] @ [newline] @ spec_blocks 1 example_docs"
    using generateContext_format[of example_docs] ne by blast
  also have "length example_docs = 2" by (simp add: example_docs_def)
  also have "spec_blocks 1 example_docs =
      lit ''Document 1 (A):'' @ [newline] @ lit ''the quick brown fox'' @ [newline]
          @ [newline] @ lit ''---'' @ [newline] @ [newline]
          @ lit ''Document 2 (B):'' @ [newline] @ lit ''lazy dog''"
    unfolding example_docs_def by (simp add: spec_block_def d1 d2' lit_def)
  finally show ?thesis by (simp add: d2 lit_def)
qed

section \<open>Processing a file\<close>

lemma limit_text: "decimal (MAX_FILE_SIZE div 1024 div 1024) = lit ''10''"
  by (simp add: MAX_FILE_SIZE_def decimal.simps lit_def)

lemma reads_not_empty: "size_file f \<le> MAX_FILE_SIZE \<Longrightarrow> fst (processFile f) \<noteq> []"
  by (simp add: processFile_def Let_def split: sum.split)

lemma size_error_only_above:
  assumes "size_file f \<le> MAX_FILE_SIZE"
  shows "snd (processFile f) \<noteq> Inl (Error (lit ''File '' @ rest))"
proof -
  have "lit ''Failed to process file '' @ xs \<noteq> lit ''File '' @ ys" for xs ys
    by (simp add: lit_def)
  then show ?thesis using assms
    by (simp add: processFile_def Let_def split: sum.split)
qed

text \<open>
  Claim C7. A file of more than 10 MiB fails with the size-limit error, whose message
  names the file and the limit \<open>10MB\<close>, and no read is started. A file of at most 10 MiB
  passes the size check: a read is started and the size-limit error is not the result.
\<close>

theorem size_limit:
  "(size_file f > 10 * 1024 * 1024 \<longrightarrow>
      processFile f =
        ([], Inl (Error (lit ''File '' @ [dquote] @ name_file f @ [dquote]
                         @ lit '' is too large. Maximum size is 10MB.''))))
   \<and> (size_file f \<le> 10 * 1024 * 1024 \<longrightarrow>
      fst (processFile f) \<noteq> []
      \<and> (\<forall>rest. snd (processFile f) \<noteq> Inl (Error (lit ''File '' @ rest))))"
proof (intro conjI impI allI)
  assume "size_file f > 10 * 1024 * 1024"
  then show "processFile f =
        ([], Inl (Error (lit ''File '' @ [dquote] @ name_file f @ [dquote]
                         @ lit '' is too large. Maximum size is 10MB.'')))"
    by (simp add: processFile_def limit_text) (simp add: MAX_FILE_SIZE_def lit_def)
next
  assume "size_file f \<le> 10 * 1024 * 1024"
  then have le: "size_file f \<le> MAX_FILE_SIZE" by (simp add: MAX_FILE_SIZE_def)
  then show "fst (processFile f) \<noteq> []" by (rule reads_not_empty)
  show "snd (processFile f) \<noteq> Inl (Error (lit ''File '' @ rest))" for rest
    using le by (rule size_error_only_above)
qed

theorem size_limit_witness:
  "processFile (example_file\<lparr>size_file := 10 * 1024 * 1024 + 1\<rparr>) =
     ([], Inl (Error (lit ''File '' @ [dquote] @ lit ''notes.txt'' @ [dquote]
                      @ lit '' is too large. Maximum size is 10MB.'')))
   \<and> fst (processFile (example_file\<lparr>size_file := 10 * 1024 * 1024\<rparr>)) \<noteq> []
   \<and> (\<forall>rest. snd (processFile (example_file\<lparr>size_file := 10 * 1024 * 1024\<rparr>))
                \<noteq> Inl (Error (lit ''File '' @ rest)))"
  using size_limit[of "example_file\<lparr>size_file := 10 * 1024 * 1024 + 1\<rparr>"]
        size_limit[of "example_file\<lparr>size_file := 10 * 1024 * 1024\<rparr>"]
  by (simp add: example_file_def)

lemma example_extension: "isTextFileExtension (lit ''notes.txt'')"
  by (simp add: isTextFileExtension_def extension_of_def toLowerCase_def textExtensions_def lit_def)

lemma example_mime: "\<not> isTextMimeType (lit ''application/octet-stream'')"
  by (simp add: isTextMimeType_def TEXT_FILE_PATTERNS_def lit_def)

text \<open>
  Claim C8. A file that passes the size check is treated as text exactly when its
  resolved MIME type (the declared type when it is not empty, otherwise the type looked
  up from the extension) matches a text pattern or its extension is a text extension:
  the first read is then \<open>readAsText\<close>, a text attachment only comes from such a file,
  and the \<open>isText\<close> flag of any other attachment says so. The file \<open>notes.txt\<close> declared
  as \<open>application/octet-stream\<close> is treated as text.
\<close>

theorem text_classification:
  "(let resolved = (if type_file f \<noteq> [] then type_file f
                    else getMimeTypeFromExtension (name_file f));
        text = (isTextMimeType resolved \<or> isTextFileExtension (name_file f))
    in size_file f \<le> MAX_FILE_SIZE \<longrightarrow>
         (hd (fst (processFile f)) = ReadAsText \<longleftrightarrow> text)
       \<and> (\<forall>n c. snd (processFile f) = Inr (MessageExtraTextFile n c) \<longrightarrow> text)
       \<and> (\<forall>n m s c t. snd (processFile f) = Inr (MessageExtraFile n m s c t) \<longrightarrow> t = text))
   \<and> \<not> isTextMimeType (type_file example_file)
   \<and> processFile example_file
       = ([ReadAsText], Inr (MessageExtraTextFile (lit ''notes.txt'') (lit ''abc'')))"
proof (intro conjI)
  show "let resolved = (if type_file f \<noteq> [] then type_file f
                    else getMimeTypeFromExtension (name_file f));
        text = (isTextMimeType resolved \<or> isTextFileExtension (name_file f))
    in size_file f \<le> MAX_FILE_SIZE \<longrightarrow>
         (hd (fst (processFile f)) = ReadAsText \<longleftrightarrow> text)
       \<and> (\<forall>n c. snd (processFile f) = Inr (MessageExtraTextFile n c) \<longrightarrow> text)
       \<and> (\<forall>n m s c t. snd (processFile f) = Inr (MessageExtraFile n m s c t) \<longrightarrow> t = text)"
    unfolding Let_def processFile_def by (auto split: sum.split)
  show "\<not> isTextMimeType (type_file example_file)"
    using example_mime by (simp add: example_file_def)
  have big: "\<not> size_file example_file > MAX_FILE_SIZE"
    by (simp add: example_file_def MAX_FILE_SIZE_def)
  have ty: "type_file example_file \<noteq> []" by (simp add: example_file_def lit_def)
  have nm: "name_file example_file = lit ''notes.txt''" by (simp add: example_file_def)
  have rd: "readFileAsText example_file = Inr (lit ''abc'')"
    by (simp add: readFileAsText_def example_file_def lit_def)
  show "processFile example_file
       = ([ReadAsText], Inr (MessageExtraTextFile (lit ''notes.txt'') (lit ''abc'')))"
    unfolding processFile_def Let_def by (simp add: big ty nm rd example_extension)
qed

theorem text_classification_witness:
  "hd (fst (processFile example_file)) = ReadAsText
   \<and> isTextFileExtension (name_file example_file)
   \<and> \<not> isTextMimeType (type_file example_file)"
proof -
  have small: "size_file example_file \<le> MAX_FILE_SIZE"
    by (simp add: example_file_def MAX_FILE_SIZE_def)
  have ext: "isTextFileExtension (name_file example_file)"
    using example_extension by (simp add: example_file_def)
  from text_classification[of example_file] small ext show ?thesis
    unfolding Let_def by blast
qed

section \<open>Formatting a size\<close>

lemma floor_log_bounds:
  "2 \<le> k \<Longrightarrow> 0 < n \<Longrightarrow> k ^ floor_log k n \<le> n \<and> n < k ^ Suc (floor_log k n)"
proof (induction k n rule: floor_log.induct)
  case (1 k n)
  show ?case
  proof (cases "n < k")
    case True
    then show ?thesis using 1 by (subst (1 2) floor_log.simps) simp
  next
    case False
    then have pos: "0 < n div k" using 1(2) by (simp add: div_greater_zero_iff)
    have ih: "k ^ floor_log k (n div k) \<le> n div k \<and> n div k < k ^ Suc (floor_log k (n div k))"
      using 1 False pos by simp
    have fl: "floor_log k n = Suc (floor_log k (n div k))"
      using 1(2) False by (subst floor_log.simps) simp
    have "k * k ^ floor_log k (n div k) \<le> k * (n div k)" using ih by simp
    also have "\<dots> \<le> n" by simp
    finally have lo: "k ^ floor_log k n \<le> n" by (simp add: fl)
    have "Suc (n div k) \<le> k ^ Suc (floor_log k (n div k))" using ih by simp
    then have "k * Suc (n div k) \<le> k * k ^ Suc (floor_log k (n div k))"
      by (rule mult_le_mono2)
    moreover have "n < k + k * (n div k)"
      using 1(2) by (intro dividend_less_times_div) simp
    then have "n < k * Suc (n div k)" by simp
    ultimately have "n < k ^ Suc (floor_log k n)" by (simp add: fl)
    then show ?thesis using lo by simp
  qed
qed

lemma tenths_bounds:
  assumes "0 < den"
  shows "\<bar>real (tenths num den) / 10 - real num / real den\<bar> \<le> 1 / 20"
proof -
  define n where "n = tenths num den"
  have "2 * den * n \<le> 20 * num + den"
    unfolding n_def tenths_def by (rule times_div_less_eq_dividend)
  then have lo: "2 * (n * den) \<le> 20 * num + den" by (simp add: mult.commute mult.left_commute)
  have "20 * num + den < 2 * den + 2 * den * n"
    unfolding n_def tenths_def using assms by (intro dividend_less_times_div) simp
  then have hi: "20 * num + den < 2 * (n * den) + 2 * den"
    by (simp add: mult.commute mult.left_commute)
  define P where "P = real n * real den"
  have "real (2 * (n * den)) \<le> real (20 * num + den)" using lo by (rule iffD2[OF of_nat_le_iff])
  then have lo': "2 * P \<le> 20 * real num + real den" by (simp add: P_def)
  have "real (20 * num + den) < real (2 * (n * den) + 2 * den)"
    using hi by (rule iffD2[OF of_nat_less_iff])
  then have hi': "20 * real num + real den < 2 * P + 2 * real den" by (simp add: P_def)
  have d: "0 < real den" using assms by simp
  define x where "x = real n / 10 - real num / real den"
  have "x * (20 * real den) = 2 * P - 20 * real num"
    using d by (simp add: x_def field_simps P_def)
  moreover have "\<bar>x\<bar> * (20 * real den) = \<bar>x * (20 * real den)\<bar>"
    using d by (simp add: abs_mult)
  moreover have "\<bar>2 * P - 20 * real num\<bar> \<le> real den"
    using lo' hi' by linarith
  ultimately have "\<bar>x\<bar> * (20 * real den) \<le> real den" by simp
  then have "\<bar>x\<bar> * 20 \<le> 1" using d by (simp add: mult.assoc[symmetric])
  then show ?thesis by (simp add: x_def n_def)
qed

lemma floor_log_less:
  assumes "0 < bytes" "bytes < 1024 ^ 4"
  shows "floor_log 1024 bytes < 4"
proof -
  have "(1024::nat) ^ floor_log 1024 bytes \<le> bytes"
    using floor_log_bounds[of 1024 bytes] assms(1) by simp
  then have "(1024::nat) ^ floor_log 1024 bytes < 1024 ^ 4" using assms(2) by linarith
  then show ?thesis by (rule power_less_imp_less_exp[rotated]) simp
qed

lemma formatFileSize_1536: "formatFileSize 1536 = lit ''1.5 KB''"
  unfolding formatFileSize_def Let_def
  by (simp add: floor_log.simps tenths_def decimal.simps lit_def)

lemma formatFileSize_1048576: "formatFileSize 1048576 = lit ''1 MB''"
  unfolding formatFileSize_def Let_def
  by (simp add: floor_log.simps tenths_def decimal.simps lit_def)

text \<open>
  Claim C9, amended. \<open>formatFileSize 0\<close> is \<open>0 B\<close>. For a positive size below
  \<open>1024 ^ 4\<close>, with \<open>i\<close> the largest exponent such that \<open>1024 ^ i \<le> bytes\<close>, the result is
  \<open>bytes / 1024 ^ i\<close> rounded to one decimal, printed without the decimal when it is 0,
  a space, and the unit of index \<open>i\<close> among B, KB, MB, GB. So 1536 gives \<open>1.5 KB\<close> and
  1048576 gives \<open>1 MB\<close>.
\<close>

theorem formatFileSize_format:
  "formatFileSize 0 = lit ''0 B''
   \<and> (0 < bytes \<and> bytes < 1024 ^ 4 \<longrightarrow>
        (\<exists>i n. i < 4 \<and> 1024 ^ i \<le> bytes \<and> bytes < 1024 ^ (i + 1)
           \<and> \<bar>real n / 10 - real bytes / 1024 ^ i\<bar> \<le> 1 / 20
           \<and> formatFileSize bytes =
               (if n mod 10 = 0 then decimal (n div 10)
                else decimal (n div 10) @ lit ''.'' @ decimal (n mod 10))
               @ lit '' '' @ [lit ''B'', lit ''KB'', lit ''MB'', lit ''GB''] ! i))
   \<and> formatFileSize 1536 = lit ''1.5 KB''
   \<and> formatFileSize 1048576 = lit ''1 MB''"
proof (intro conjI impI)
  show "formatFileSize 0 = lit ''0 B''" by (simp add: formatFileSize_def)
  show "formatFileSize 1536 = lit ''1.5 KB''" by (rule formatFileSize_1536)
  show "formatFileSize 1048576 = lit ''1 MB''" by (rule formatFileSize_1048576)
next
  assume a: "0 < bytes \<and> bytes < 1024 ^ 4"
  define i where "i = floor_log 1024 bytes"
  define n where "n = tenths bytes (1024 ^ i)"
  have i4: "i < 4" unfolding i_def using a by (intro floor_log_less) simp_all
  have b: "1024 ^ i \<le> bytes \<and> bytes < 1024 ^ (i + 1)"
    unfolding i_def using floor_log_bounds[of 1024 bytes] a by simp
  have "\<bar>real (tenths bytes (1024 ^ i)) / 10 - real bytes / real (1024 ^ i)\<bar> \<le> 1 / 20"
    by (rule tenths_bounds) simp
  then have r: "\<bar>real n / 10 - real bytes / 1024 ^ i\<bar> \<le> 1 / 20" by (simp add: n_def)
  have f: "formatFileSize bytes =
               (if n mod 10 = 0 then decimal (n div 10)
                else decimal (n div 10) @ lit ''.'' @ decimal (n mod 10))
               @ lit '' '' @ [lit ''B'', lit ''KB'', lit ''MB'', lit ''GB''] ! i"
    using a i4 by (simp add: formatFileSize_def Let_def flip: i_def n_def)
  show "\<exists>i n. i < 4 \<and> 1024 ^ i \<le> bytes \<and> bytes < 1024 ^ (i + 1)
           \<and> \<bar>real n / 10 - real bytes / 1024 ^ i\<bar> \<le> 1 / 20
           \<and> formatFileSize bytes =
               (if n mod 10 = 0 then decimal (n div 10)
                else decimal (n div 10) @ lit ''.'' @ decimal (n mod 10))
               @ lit '' '' @ [lit ''B'', lit ''KB'', lit ''MB'', lit ''GB''] ! i"
    using i4 b r f by blast
qed

theorem formatFileSize_format_witness:
  "\<exists>i n. i < 4 \<and> 1024 ^ i \<le> (1536::nat) \<and> (1536::nat) < 1024 ^ (i + 1)
           \<and> \<bar>real n / 10 - real (1536::nat) / 1024 ^ i\<bar> \<le> 1 / 20
           \<and> formatFileSize 1536 =
               (if n mod 10 = 0 then decimal (n div 10)
                else decimal (n div 10) @ lit ''.'' @ decimal (n mod 10))
               @ lit '' '' @ [lit ''B'', lit ''KB'', lit ''MB'', lit ''GB''] ! i"
proof -
  have "0 < (1536::nat) \<and> (1536::nat) < 1024 ^ 4" by simp
  with formatFileSize_format[of 1536] show ?thesis by blast
qed

text \<open>
  Claim C9 as stated fails: the result for 1048576 is not \<open>1.0 MB\<close>.
\<close>

theorem formatFileSize_counterexample:
  "formatFileSize 1048576 \<noteq> lit ''1.0 MB''"
  by (simp add: formatFileSize_1048576 lit_def)

end
